theory Spec2Isabelle
  imports Main
begin

section \<open>Python values, strings and dictionaries\<close>

text \<open>
  The registration application (\<^verbatim>\<open>app.py\<close>) is one Flask module over one table.
  Cell values of an uploaded sheet are Python objects; the code observes three things of
  them: whether they are instances of \<^verbatim>\<open>datetime\<close>, \<^verbatim>\<open>date\<close> or \<^verbatim>\<open>time\<close>, their truth
  value (the \<^verbatim>\<open>or\<close> chain of line 110) and their \<^verbatim>\<open>str()\<close>.

  A float is represented by its \<^verbatim>\<open>repr\<close> text (\<^verbatim>\<open>nan\<close> for the value pandas gives an
  empty cell), a temporal value by its \<^verbatim>\<open>str()\<close> text. A character is a code point
  below 256.
\<close>

datatype pyval =
    PyNone
  | PyBool bool
  | PyInt int
  | PyFloat string
  | PyStr string
  | PyTemporal string

text \<open>A \<^verbatim>\<open>dict\<close> with string keys, in insertion order; lookups take the first binding.\<close>

type_synonym pydict = "(string \<times> pyval) list"

text \<open>Python's \<^verbatim>\<open>bool(v)\<close>: \<^verbatim>\<open>None\<close>, \<^verbatim>\<open>False\<close>, zero and the empty string are false.\<close>

fun truthy :: "pyval \<Rightarrow> bool" where
  "truthy PyNone = False"
| "truthy (PyBool b) = b"
| "truthy (PyInt i) = (i \<noteq> 0)"
| "truthy (PyFloat r) = (r \<noteq> ''0.0'' \<and> r \<noteq> ''-0.0'')"
| "truthy (PyStr s) = (s \<noteq> [])"
| "truthy (PyTemporal s) = True"

definition digit_char :: "nat \<Rightarrow> char" where
  "digit_char d = ''0123456789'' ! d"

fun str_nat :: "nat \<Rightarrow> string" where
  "str_nat n = (if n < 10 then [digit_char n] else str_nat (n div 10) @ [digit_char (n mod 10)])"

declare str_nat.simps [simp del]

definition str_int :: "int \<Rightarrow> string" where
  "str_int i = (if i < 0 then CHR ''-'' # str_nat (nat (- i)) else str_nat (nat i))"

text \<open>Python's \<^verbatim>\<open>str(v)\<close>.\<close>

fun py_str :: "pyval \<Rightarrow> string" where
  "py_str PyNone = ''None''"
| "py_str (PyBool b) = (if b then ''True'' else ''False'')"
| "py_str (PyInt i) = str_int i"
| "py_str (PyFloat r) = r"
| "py_str (PyStr s) = s"
| "py_str (PyTemporal s) = s"

text \<open>\<^verbatim>\<open>a or b\<close>: the left operand when it is true, the right one otherwise.\<close>

definition py_or :: "pyval \<Rightarrow> pyval \<Rightarrow> pyval" where
  "py_or a b = (if truthy a then a else b)"

text \<open>\<^verbatim>\<open>d.get(k)\<close>: \<^verbatim>\<open>None\<close> for a missing key.\<close>

definition dict_get :: "pydict \<Rightarrow> string \<Rightarrow> pyval" where
  "dict_get d k = (case map_of d k of None \<Rightarrow> PyNone | Some v \<Rightarrow> v)"

text \<open>
  \<^verbatim>\<open>str.isspace\<close> on the code points below 256: tab to carriage return, the four
  separators 28 to 31, space, next line (133) and no-break space (160).
\<close>

definition is_space :: "char \<Rightarrow> bool" where
  "is_space c \<longleftrightarrow> c \<in> set [CHR 0x09, CHR 0x0A, CHR 0x0B, CHR 0x0C, CHR 0x0D,
     CHR 0x1C, CHR 0x1D, CHR 0x1E, CHR 0x1F, CHR 0x20, CHR 0x85, CHR 0xA0]"

text \<open>\<^verbatim>\<open>s.strip()\<close>: whitespace removed at both ends.\<close>

definition strip :: "string \<Rightarrow> string" where
  "strip s = rev (dropWhile is_space (rev (dropWhile is_space s)))"

text \<open>\<^verbatim>\<open>s.lower()\<close> on the code points below 256.\<close>

definition lower_char :: "char \<Rightarrow> char" where
  "lower_char c =
     (let n = (of_char c :: nat)
      in if (65 \<le> n \<and> n \<le> 90) \<or> (192 \<le> n \<and> n \<le> 222 \<and> n \<noteq> 215)
         then char_of (n + 32) else c)"

definition lower :: "string \<Rightarrow> string" where
  "lower s = map lower_char s"

section \<open>Configuration and helpers\<close>

definition ALLOWED_EXT :: "string set" where
  "ALLOWED_EXT = {''.xlsx'', ''.xls'', ''.csv''}"

text \<open>\<^verbatim>\<open>s.rfind(c)\<close>: the last index of \<open>c\<close>, or \<open>-1\<close>.\<close>

definition rfind :: "char \<Rightarrow> string \<Rightarrow> int" where
  "rfind c s = (case filter (\<lambda>i. s ! i = c) (rev [0..<length s]) of
                  [] \<Rightarrow> - 1 | i # _ \<Rightarrow> int i)"

text \<open>
  \<^verbatim>\<open>os.path.splitext\<close> (POSIX): the extension starts at the last dot, provided the dot
  comes after the last slash and some character between the two is not a dot.
\<close>

definition splitext :: "string \<Rightarrow> string \<times> string" where
  "splitext p =
     (let sepIndex = rfind CHR ''/'' p; dotIndex = rfind CHR ''.'' p
      in if dotIndex > sepIndex \<and>
            list_ex (\<lambda>j. p ! j \<noteq> CHR ''.'') [nat (sepIndex + 1)..<nat dotIndex]
         then (take (nat dotIndex) p, drop (nat dotIndex) p)
         else (p, []))"

definition allowed_file :: "string \<Rightarrow> bool" where
  "allowed_file filename = (snd (splitext (lower filename)) \<in> ALLOWED_EXT)"

section \<open>The table, the image folder and the environment\<close>

type_synonym timestamp = int

text \<open>
  One row of the \<^verbatim>\<open>Registration\<close> table. The primary key is \<open>reg_id\<close> (the column
  \<^verbatim>\<open>id\<close>); \<open>status\<close> is the string column it is in the code.
\<close>

record registration =
  reg_id :: nat
  regno :: string
  data :: pydict
  status :: string
  created_at :: timestamp
  approved_at :: "timestamp option"

text \<open>
  The persistent state: the committed table, rows in insertion order, and the folder
  \<^verbatim>\<open>static/qrcodes\<close>, a map from the file name handed to \<^verbatim>\<open>os.path.join\<close> to the text
  its image encodes.
\<close>

record app_state =
  table :: "registration list"
  qrcodes :: "string \<rightharpoonup> string"

definition initial_state :: app_state where
  "initial_state = \<lparr>table = [], qrcodes = Map.empty\<rparr>"

text \<open>
  The exceptions of library calls that no handler of the application catches: the one of
  the database driver for an integer that does not fit a 64-bit column, and whatever
  \<^verbatim>\<open>qrcode.make\<close>, \<^verbatim>\<open>img.save\<close> and \<^verbatim>\<open>to_excel\<close> raise.
\<close>

datatype exn = OverflowError | ImageWriteError | ExcelWriteError

text \<open>
  The table \<^verbatim>\<open>pd.DataFrame(records)\<close> builds and \<^verbatim>\<open>to_excel\<close> writes: the column names,
  and for every record one row with a cell for every column, empty where the record has
  no such key. A cell is given by the stored value it is written for; how pandas and the
  writer render that value is not part of the model (an integer that shares its column
  with an empty cell is held as a float, so that 7 is read back as 7.0; \<^verbatim>\<open>None\<close> and
  \<^verbatim>\<open>nan\<close> leave the cell empty).
\<close>

record sheet =
  sheet_columns :: "string list"
  sheet_rows :: "pyval option list list"

text \<open>
  What the application cannot decide: for which text and file name the image can be made
  and saved (the folder has no sub-directory for a name with a slash, a file name has a
  maximal length, a QR code a maximal content), and which table the workbook writer
  accepts (it refuses control characters in a text, and a sheet has a maximal size).
\<close>

record environment =
  image_writable :: "string \<Rightarrow> string \<Rightarrow> bool"
  excel_writable :: "sheet \<Rightarrow> bool"

text \<open>\<^verbatim>\<open>Registration.query.filter_by(regno=regno).first()\<close>\<close>

definition first_by_regno :: "string \<Rightarrow> registration list \<Rightarrow> registration option" where
  "first_by_regno q tbl = find (\<lambda>r. regno r = q) tbl"

text \<open>
  \<^verbatim>\<open>Registration.query.get(rec_id)\<close>. The key column is a signed 64-bit integer: no row
  has a key of \<open>2^63\<close> or more, and the driver raises \<^verbatim>\<open>OverflowError\<close> when it is asked
  for one. The model looks the key up and raises when a key that large is not found.
\<close>

definition query_get :: "nat \<Rightarrow> registration list \<Rightarrow> exn + registration option" where
  "query_get i tbl =
     (case find (\<lambda>r. reg_id r = i) tbl of
        Some r \<Rightarrow> Inr (Some r)
      | None \<Rightarrow> if i < 2 ^ 63 then Inr None else Inl OverflowError)"

text \<open>\<^verbatim>\<open>Registration.query.filter_by(status=s).all()\<close> and \<^verbatim>\<open>.count()\<close>\<close>

definition all_by_status :: "string \<Rightarrow> registration list \<Rightarrow> registration list" where
  "all_by_status s tbl = filter (\<lambda>r. status r = s) tbl"

definition count_by_status :: "string \<Rightarrow> registration list \<Rightarrow> nat" where
  "count_by_status s tbl = length (all_by_status s tbl)"

text \<open>
  The key an insert is given: the table's integer primary key is one more than the
  largest key in use (rows are never deleted).
\<close>

definition next_id :: "registration list \<Rightarrow> nat" where
  "next_id tbl = Suc (fold max (map reg_id tbl) 0)"

text \<open>
  \<^verbatim>\<open>generate_qr_for_text\<close>: the image of \<open>text\<close> saved under the given name, or the
  exception of the library when the image cannot be made or saved.
\<close>

definition generate_qr_for_text ::
    "environment \<Rightarrow> string \<Rightarrow> string \<Rightarrow> app_state \<Rightarrow> exn + app_state" where
  "generate_qr_for_text env text filename_path st =
     (if image_writable env text filename_path
      then Inr (st\<lparr>qrcodes := (qrcodes st)(filename_path \<mapsto> text)\<rparr>)
      else Inl ImageWriteError)"

section \<open>Requests and responses\<close>

record session =
  admin :: bool

datatype location = UrlFor string "(string \<times> string) list" | RequestUrl

datatype body =
    JError string
  | JOk bool
  | JRecord nat pydict string

text \<open>
  \<open>InternalServerError\<close> is the answer to a request whose handler raised: status 500,
  no flashed message, and the database session rolled back.
\<close>

datatype response =
    Redirect location
  | Render string
  | Json nat body
  | SendFile string string sheet
  | InternalServerError

text \<open>A flashed message and its category.\<close>

datatype flash = Flash string string

type_synonym result = "response \<times> flash list \<times> app_state"

text \<open>
  \<^verbatim>\<open>login_required\<close>: without the session flag the request is redirected to the login
  page and the handler does not run.
\<close>

definition login_required :: "session \<Rightarrow> string \<Rightarrow> app_state \<Rightarrow> result \<Rightarrow> result" where
  "login_required sess path st handler =
     (if \<not> admin sess then (Redirect (UrlFor ''admin_login'' [(''next'', path)]), [], st)
      else handler)"

section \<open>Upload\<close>

datatype http_method = GET | POST

text \<open>
  The uploaded file as the handler sees it: \<open>secure_name\<close> is what
  \<^verbatim>\<open>secure_filename\<close> returns for the client's file name, and \<open>parsed\<close> is the outcome of
  the pandas reader of line 96, the exception's text or the rows of the frame in order.
  A missing file field, or one with an empty name, is \<open>None\<close>. The reader gives an empty
  cell the float \<^verbatim>\<open>nan\<close>, not the empty string.
\<close>

record upload_file =
  secure_name :: string
  parsed :: "string + pydict list"

record upload_request =
  http_method :: http_method
  file_field :: "upload_file option"

text \<open>Lines 106 to 108: temporal values are replaced by their text.\<close>

definition stringify_temporal :: "pydict \<Rightarrow> pydict" where
  "stringify_temporal record =
     map (\<lambda>(k, v). (k, case v of PyTemporal s \<Rightarrow> PyStr s | _ \<Rightarrow> v)) record"

text \<open>Line 110.\<close>

definition resolve_regno :: "pydict \<Rightarrow> string" where
  "resolve_regno record =
     strip (py_str (py_or (py_or (py_or (dict_get record ''Reg No'') (dict_get record ''regno''))
                                 (dict_get record ''ID''))
                          (PyStr [])))"

text \<open>
  One pass of the loop of lines 102 to 130, on the session's view of the table and the
  count. The query of line 115 flushes the session before it reads, so it sees the
  records added earlier in the same request. Nothing catches an exception of
  \<^verbatim>\<open>generate_qr_for_text\<close>: the pass, and with it the request, ends there. \<open>clock\<close> gives
  the time read when the \<open>n\<close>-th record of the request is inserted.
\<close>

definition upload_row ::
    "environment \<Rightarrow> (nat \<Rightarrow> timestamp) \<Rightarrow> pydict \<Rightarrow> app_state \<times> nat \<Rightarrow> exn + app_state \<times> nat" where
  "upload_row env clock row = (\<lambda>(st, created).
     let record = stringify_temporal row;
         regno = resolve_regno record
     in if regno = [] then Inr (st, created)
        else if first_by_regno regno (table st) \<noteq> None then Inr (st, created)
        else
          let qr_filename = regno @ ''.png''
          in case generate_qr_for_text env regno qr_filename st of
               Inl e \<Rightarrow> Inl e
             | Inr st1 \<Rightarrow>
                 let reg = \<lparr>reg_id = next_id (table st1), regno = regno, data = record,
                            status = ''pending'', created_at = clock created,
                            approved_at = None\<rparr>
                 in Inr (st1\<lparr>table := table st1 @ [reg]\<rparr>, Suc created))"

text \<open>
  The loop. When a pass raises, the loop ends with the exception and the state reached
  before that pass, whose images are on disk.
\<close>

fun upload_rows ::
    "environment \<Rightarrow> (nat \<Rightarrow> timestamp) \<Rightarrow> pydict list \<Rightarrow> app_state \<times> nat \<Rightarrow>
       exn \<times> app_state + app_state \<times> nat" where
  "upload_rows env clock [] x = Inr x"
| "upload_rows env clock (row # rows) x =
     (case upload_row env clock row x of
        Inl e \<Rightarrow> Inl (e, fst x)
      | Inr y \<Rightarrow> upload_rows env clock rows y)"

text \<open>
  Lines 84 to 136. The commit of line 132 makes the records of the loop permanent; when
  the loop raised, the commit is not reached, the session is rolled back at the end of
  the request, and only the images written before the exception remain.
\<close>

definition upload_body ::
    "environment \<Rightarrow> (nat \<Rightarrow> timestamp) \<Rightarrow> upload_request \<Rightarrow> app_state \<Rightarrow> result" where
  "upload_body env clock req st =
     (if http_method req = POST then
        (case file_field req of
           None \<Rightarrow> (Redirect RequestUrl, [Flash ''No file uploaded'' ''warning''], st)
         | Some f \<Rightarrow>
             if \<not> allowed_file (secure_name f) then
               (Redirect RequestUrl,
                [Flash ''File type not allowed. Use .xlsx, .xls, .csv'' ''warning''], st)
             else
               (case parsed f of
                  Inl e \<Rightarrow> (Redirect RequestUrl, [Flash (''Error reading file: '' @ e) ''danger''], st)
                | Inr rows \<Rightarrow>
                    (case upload_rows env clock rows (st, 0) of
                       Inl (e, st') \<Rightarrow> (InternalServerError, [], st\<lparr>qrcodes := qrcodes st'\<rparr>)
                     | Inr (st', created) \<Rightarrow>
                         (Redirect RequestUrl,
                          [Flash (''Processed file. '' @ str_nat created @ '' records added to pending.'')
                                 ''success''],
                          st'))))
      else (Render ''upload.html'', [], st))"

definition upload ::
    "session \<Rightarrow> environment \<Rightarrow> (nat \<Rightarrow> timestamp) \<Rightarrow> upload_request \<Rightarrow> app_state \<Rightarrow> result" where
  "upload sess env clock req st = login_required sess ''/upload'' st (upload_body env clock req st)"

section \<open>Lookup, approval and export\<close>

definition api_get_by_regno :: "session \<Rightarrow> string \<Rightarrow> app_state \<Rightarrow> result" where
  "api_get_by_regno sess q st =
     login_required sess (''/api/get_by_regno/'' @ q) st
       (case first_by_regno q (table st) of
          None \<Rightarrow> (Json 404 (JError ''not found''), [], st)
        | Some rec \<Rightarrow> (Json 200 (JRecord (reg_id rec) (data rec) (status rec)), [], st))"

text \<open>Lines 168 to 170: the update of the row whose key is \<open>rec_id\<close>.\<close>

definition approve_row :: "timestamp \<Rightarrow> nat \<Rightarrow> registration \<Rightarrow> registration" where
  "approve_row now rec_id r =
     (if reg_id r = rec_id then r\<lparr>status := ''approved'', approved_at := Some now\<rparr> else r)"

definition api_approve :: "session \<Rightarrow> timestamp \<Rightarrow> nat \<Rightarrow> app_state \<Rightarrow> result" where
  "api_approve sess now rec_id st =
     login_required sess (''/api/approve/'' @ str_nat rec_id) st
       (case query_get rec_id (table st) of
          Inl e \<Rightarrow> (InternalServerError, [], st)
        | Inr None \<Rightarrow> (Json 404 (JError ''not found''), [], st)
        | Inr (Some rec) \<Rightarrow>
            (Json 200 (JOk True), [], st\<lparr>table := map (approve_row now rec_id) (table st)\<rparr>))"

text \<open>The elements of a list in the order of their first occurrence.\<close>

definition first_seen :: "'a list \<Rightarrow> 'a list" where
  "first_seen xs = rev (remdups (rev xs))"




section \<open>Runs of the application\<close>

text \<open>
  The two operations that write to the table, with everything a request brings with it,
  and the states that some sequence of them reaches from the empty database.
\<close>

datatype operation =
    Upload session environment "nat \<Rightarrow> timestamp" upload_request
  | Approve session timestamp nat

fun perform :: "operation \<Rightarrow> app_state \<Rightarrow> app_state" where
  "perform (Upload sess env clock req) st = snd (snd (upload sess env clock req st))"
| "perform (Approve sess now rec_id) st = snd (snd (api_approve sess now rec_id st))"

inductive reachable :: "app_state \<Rightarrow> bool" where
  reachable_initial: "reachable initial_state"
| reachable_perform: "reachable st \<Longrightarrow> reachable (perform op st)"

section \<open>Properties of records, rows and strings\<close>

text \<open>
  A valid upload: the session is an admin's, the request is a POST with a file whose name
  has an allowed extension, and the reader returned the rows \<open>rows\<close>.
\<close>

definition valid_upload :: "session \<Rightarrow> upload_request \<Rightarrow> pydict list \<Rightarrow> bool" where
  "valid_upload sess req rows \<longleftrightarrow>
     admin sess \<and> http_method req = POST \<and>
     (case file_field req of
        None \<Rightarrow> False
      | Some f \<Rightarrow> allowed_file (secure_name f) \<and> parsed f = Inr rows)"

text \<open>The identifier line 110 computes for a row of the frame, after lines 103 to 108.\<close>

definition row_regno :: "pydict \<Rightarrow> string" where
  "row_regno row = resolve_regno (stringify_temporal row)"

text \<open>
  The rows an upload is expected to accept, as positions in the file: the identifier
  is not empty, no record of the table has it, and no earlier row of the file has it.
\<close>

definition accepted_rows :: "registration list \<Rightarrow> pydict list \<Rightarrow> nat list" where
  "accepted_rows tbl rows =
     filter (\<lambda>i. row_regno (rows ! i) \<noteq> [] \<and>
                 row_regno (rows ! i) \<notin> set (map regno tbl) \<and>
                 list_all (\<lambda>j. row_regno (rows ! j) \<noteq> row_regno (rows ! i)) [0..<i])
            [0..<length rows]"

text \<open>The accepted rows themselves, in the order of the file.\<close>

definition accepted_list :: "registration list \<Rightarrow> pydict list \<Rightarrow> pydict list" where
  "accepted_list tbl rows = map (\<lambda>i. rows ! i) (accepted_rows tbl rows)"

text \<open>The name of the image of an identifier (line 119).\<close>

definition image_name :: "string \<Rightarrow> string" where
  "image_name r = r @ ''.png''"

text \<open>The environment lets the image of the identifier of a row be written.\<close>

definition row_writable :: "environment \<Rightarrow> pydict \<Rightarrow> bool" where
  "row_writable env row = image_writable env (row_regno row) (image_name (row_regno row))"

text \<open>The accepted rows that come before the first one whose image cannot be written.\<close>

definition written_rows :: "environment \<Rightarrow> registration list \<Rightarrow> pydict list \<Rightarrow> pydict list" where
  "written_rows env tbl rows = takeWhile (row_writable env) (accepted_list tbl rows)"

text \<open>The images a list of rows leaves in the folder, the later row over the earlier.\<close>

definition images_of :: "pydict list \<Rightarrow> string \<rightharpoonup> string" where
  "images_of rs = map_of (rev (map (\<lambda>row. (image_name (row_regno row), row_regno row)) rs))"

text \<open>The status is one of the two values, and the approval time is there exactly for approved records.\<close>

definition record_ok :: "registration \<Rightarrow> bool" where
  "record_ok r \<longleftrightarrow>
     (status r = ''pending'' \<or> status r = ''approved'') \<and>
     (approved_at r \<noteq> None \<longleftrightarrow> status r = ''approved'')"

text \<open>The two unique columns of the table: the primary key and the registration number.\<close>

definition keys_unique :: "registration list \<Rightarrow> bool" where
  "keys_unique tbl \<longleftrightarrow> distinct (map reg_id tbl) \<and> distinct (map regno tbl)"

text \<open>A string that is not empty and neither starts nor ends with whitespace.\<close>

definition trimmed :: "string \<Rightarrow> bool" where
  "trimmed s \<longleftrightarrow> s \<noteq> [] \<and> \<not> is_space (hd s) \<and> \<not> is_space (last s)"

text \<open>
  The values the \<^verbatim>\<open>or\<close> chain of line 110 passes over, among those that are not floats:
  \<^verbatim>\<open>None\<close> (also what \<^verbatim>\<open>get\<close> gives for a missing column), \<^verbatim>\<open>False\<close>, zero and the
  empty string.
\<close>

definition passed_over :: "pyval \<Rightarrow> bool" where
  "passed_over v \<longleftrightarrow> v = PyNone \<or> v = PyBool False \<or> v = PyInt 0 \<or> v = PyStr []"

definition is_float :: "pyval \<Rightarrow> bool" where
  "is_float v = (case v of PyFloat r \<Rightarrow> True | _ \<Rightarrow> False)"

text \<open>The three identifier cells of a row, as line 110 reads them.\<close>

definition identifier_cells :: "pydict \<Rightarrow> pyval list" where
  "identifier_cells row =
     [dict_get (stringify_temporal row) ''Reg No'',
      dict_get (stringify_temporal row) ''regno'',
      dict_get (stringify_temporal row) ''ID'']"

section \<open>Example data\<close>

definition admin_session :: session where
  "admin_session = \<lparr>admin = True\<rparr>"

text \<open>
  An environment: the image folder has no sub-directory, so an image whose name has a
  slash cannot be saved; the workbook writer refuses a text with one of the control
  characters 0 to 8, 11, 12 and 14 to 31.
\<close>

definition forbidden_char :: "char \<Rightarrow> bool" where
  "forbidden_char c =
     (let n = (of_char c :: nat) in n \<le> 8 \<or> n = 11 \<or> n = 12 \<or> (14 \<le> n \<and> n \<le> 31))"

definition clean_text :: "string \<Rightarrow> bool" where
  "clean_text s = list_all (\<lambda>c. \<not> forbidden_char c) s"

definition clean_cell :: "pyval option \<Rightarrow> bool" where
  "clean_cell c = (case c of Some (PyStr s) \<Rightarrow> clean_text s | _ \<Rightarrow> True)"

definition example_env :: environment where
  "example_env =
     \<lparr>image_writable = (\<lambda>text name. CHR ''/'' \<notin> set name),
      excel_writable = (\<lambda>df. list_all clean_text (sheet_columns df) \<and>
                              list_all (list_all clean_cell) (sheet_rows df))\<rparr>"

definition example_record :: registration where
  "example_record =
     \<lparr>reg_id = 1, regno = ''A1'',
      data = [(''Reg No'', PyStr ''A1''), (''Name'', PyStr ''Alice'')],
      status = ''pending'', created_at = 10, approved_at = None\<rparr>"

definition example_state :: app_state where
  "example_state = \<lparr>table = [example_record], qrcodes = [''A1.png'' \<mapsto> ''A1'']\<rparr>"

definition approved_state :: app_state where
  "approved_state =
     \<lparr>table = [example_record\<lparr>status := ''approved'', approved_at := Some 20\<rparr>],
      qrcodes = [''A1.png'' \<mapsto> ''A1'']\<rparr>"

text \<open>A file of two rows with the same identifier.\<close>

definition example_rows :: "pydict list" where
  "example_rows =
     [ [(''Reg No'', PyStr ''A1''), (''Name'', PyStr ''Alice'')],
      [(''Reg No'', PyStr ''A1''), (''Name'', PyStr ''AliceDup'')] ]"

definition csv_request :: "pydict list \<Rightarrow> upload_request" where
  "csv_request rows =
     \<lparr>http_method = POST,
      file_field = Some \<lparr>secure_name = ''students.csv'', parsed = Inr rows\<rparr>\<rparr>"

definition example_request :: upload_request where
  "example_request = csv_request example_rows"

definition example_clock :: "nat \<Rightarrow> timestamp" where
  "example_clock n = 10 + int n"

text \<open>
  The file of the specification's scenario as the reader returns it: the third row has
  an empty \<open>Reg No\<close> cell, which is the float \<^verbatim>\<open>nan\<close>.
\<close>

definition scenario_rows :: "pydict list" where
  "scenario_rows =
     [ [(''Reg No'', PyStr ''A1''), (''Name'', PyStr ''Alice'')],
      [(''Reg No'', PyStr ''A1''), (''Name'', PyStr ''AliceDup'')],
      [(''Reg No'', PyFloat ''nan''), (''Name'', PyStr ''NoId'')] ]"

text \<open>A file whose second identifier has a slash.\<close>

definition slash_rows :: "pydict list" where
  "slash_rows =
     [ [(''Reg No'', PyStr ''A1''), (''Name'', PyStr ''Alice'')],
      [(''Reg No'', PyStr ''x/y''), (''Name'', PyStr ''Bob'')],
      [(''Reg No'', PyStr ''C3''), (''Name'', PyStr ''Carol'')] ]"

text \<open>A row whose first identifier column is blank and whose second one is filled in.\<close>

definition blank_first_row :: pydict where
  "blank_first_row = [(''Reg No'', PyStr ''  ''), (''regno'', PyStr ''A1'')]"

definition second_record :: registration where
  "second_record =
     \<lparr>reg_id = 2, regno = ''B2'',
      data = [(''Reg No'', PyStr ''B2''), (''Name'', PyStr ''Bob'')],
      status = ''pending'', created_at = 11, approved_at = None\<rparr>"

definition two_state :: app_state where
  "two_state = \<lparr>table = [example_record, second_record],
                 qrcodes = [''A1.png'' \<mapsto> ''A1'', ''B2.png'' \<mapsto> ''B2'']\<rparr>"

text \<open>A row whose first identifier column holds the number zero.\<close>

definition zero_first_row :: pydict where
  "zero_first_row = [(''Reg No'', PyInt 0), (''regno'', PyStr '' B7 ''), (''ID'', PyInt 12)]"

text \<open>The state after the example file has been uploaded to the empty database.\<close>

definition uploaded_state :: app_state where
  "uploaded_state =
     perform (Upload admin_session example_env example_clock example_request) initial_state"



section \<open>Queries and strings\<close>

lemma find_None_image: "find (\<lambda>r. f r = k) xs = None \<longleftrightarrow> k \<notin> f ` set xs"
  by (induction xs) auto

lemma find_Some_image: "k \<in> f ` set xs \<Longrightarrow> \<exists>r \<in> set xs. f r = k \<and> find (\<lambda>r. f r = k) xs = Some r"
  by (induction xs) auto

lemma first_by_regno_None: "first_by_regno q tbl = None \<longleftrightarrow> q \<notin> regno ` set tbl"
  by (simp add: first_by_regno_def find_None_image)

lemma last_dropWhile: "dropWhile P xs \<noteq> [] \<Longrightarrow> last (dropWhile P xs) = last xs"
  by (induction xs) (auto split: if_splits)

lemma strip_trimmed: "strip s \<noteq> [] \<Longrightarrow> trimmed (strip s)"
proof -
  assume ne: "strip s \<noteq> []"
  define t where "t = dropWhile is_space s"
  define u where "u = dropWhile is_space (rev t)"
  have s: "strip s = rev u" by (simp add: strip_def u_def t_def)
  with ne have une: "u \<noteq> []" by simp
  then have tne: "t \<noteq> []" by (auto simp: u_def)
  have "\<not> is_space (hd u)" using une unfolding u_def by (rule hd_dropWhile)
  then have l: "\<not> is_space (last (rev u))" using une by (simp add: last_rev)
  have "last u = last (rev t)" using une unfolding u_def by (rule last_dropWhile)
  then have "hd (rev u) = hd t" using une tne by (simp add: hd_rev last_rev)
  moreover have "\<not> is_space (hd t)" using tne unfolding t_def by (rule hd_dropWhile)
  ultimately show ?thesis using s une l by (simp add: trimmed_def)
qed

lemma upload_row_skip:
  "row_regno row = [] \<or> row_regno row \<in> regno ` set (table st) \<Longrightarrow>
   upload_row env clock row (st, n) = Inr (st, n)"
  using first_by_regno_None [of "row_regno row" "table st"]
  by (auto simp: upload_row_def row_regno_def Let_def)

lemma upload_row_accept:
  "row_regno row \<noteq> [] \<Longrightarrow> row_regno row \<notin> regno ` set (table st) \<Longrightarrow> row_writable env row \<Longrightarrow>
   upload_row env clock row (st, n) =
     Inr (st\<lparr>qrcodes := (qrcodes st)(image_name (row_regno row) \<mapsto> row_regno row),
             table := table st @
               [\<lparr>reg_id = next_id (table st), regno = row_regno row,
                 data = stringify_temporal row, status = ''pending'', created_at = clock n,
                 approved_at = None\<rparr>]\<rparr>,
          Suc n)"
  using first_by_regno_None [of "row_regno row" "table st"]
  by (simp add: upload_row_def row_regno_def Let_def generate_qr_for_text_def image_name_def
      row_writable_def)

lemma upload_row_fail:
  "row_regno row \<noteq> [] \<Longrightarrow> row_regno row \<notin> regno ` set (table st) \<Longrightarrow> \<not> row_writable env row \<Longrightarrow>
   upload_row env clock row (st, n) = Inl ImageWriteError"
  using first_by_regno_None [of "row_regno row" "table st"]
  by (simp add: upload_row_def row_regno_def Let_def generate_qr_for_text_def image_name_def
      row_writable_def)

lemma upload_rows_snoc:
  "upload_rows env clock (rows @ [row]) x =
     (case upload_rows env clock rows x of
        Inl f \<Rightarrow> Inl f
      | Inr y \<Rightarrow> (case upload_row env clock row y of
                    Inl e \<Rightarrow> Inl (e, fst y)
                  | Inr z \<Rightarrow> Inr z))"
  by (induction rows arbitrary: x) (simp_all split: sum.splits)

lemma accepted_list_snoc:
  "accepted_list tbl (rows @ [row]) =
     accepted_list tbl rows @
       (if row_regno row \<noteq> [] \<and> row_regno row \<notin> regno ` set tbl \<and>
           row_regno row \<notin> row_regno ` set rows
        then [row] else [])"
proof -
  let ?P = "\<lambda>rs i. row_regno (rs ! i) \<noteq> [] \<and> row_regno (rs ! i) \<notin> set (map regno tbl) \<and>
                 list_all (\<lambda>j. row_regno (rs ! j) \<noteq> row_regno (rs ! i)) [0..<i]"
  have old: "filter (?P (rows @ [row])) [0..<length rows] = filter (?P rows) [0..<length rows]"
    by (rule filter_cong) (auto simp: nth_append list_all_iff)
  have m: "map (\<lambda>i. (rows @ [row]) ! i) (filter (?P rows) [0..<length rows]) =
           map (\<lambda>i. rows ! i) (filter (?P rows) [0..<length rows])"
    by (rule map_cong) (auto simp: nth_append)
  have new: "?P (rows @ [row]) (length rows) \<longleftrightarrow>
      row_regno row \<noteq> [] \<and> row_regno row \<notin> set (map regno tbl) \<and>
           row_regno row \<notin> row_regno ` set rows"
  proof -
    have "(\<forall>j<length rows. row_regno (rows ! j) \<noteq> row_regno row) \<longleftrightarrow>
          row_regno row \<notin> row_regno ` set rows"
    proof
      assume a: "\<forall>j<length rows. row_regno (rows ! j) \<noteq> row_regno row"
      show "row_regno row \<notin> row_regno ` set rows"
      proof
        assume "row_regno row \<in> row_regno ` set rows"
        then obtain x where x: "x \<in> set rows" "row_regno row = row_regno x" by blast
        then obtain j where "j < length rows" "rows ! j = x" by (auto simp: in_set_conv_nth)
        with a x show False by auto
      qed
    next
      assume n: "row_regno row \<notin> row_regno ` set rows"
      show "\<forall>j<length rows. row_regno (rows ! j) \<noteq> row_regno row"
      proof (intro allI impI)
        fix j assume "j < length rows"
        then have "rows ! j \<in> set rows" by simp
        with n show "row_regno (rows ! j) \<noteq> row_regno row" by (metis image_eqI)
      qed
    qed
    then show ?thesis
      by (simp add: nth_append list_all_iff Ball_def)
  qed
  show ?thesis
    unfolding accepted_list_def accepted_rows_def
    using old m new by simp
qed


lemma accepted_list_Nil: "accepted_list tbl [] = []"
  by (simp add: accepted_list_def accepted_rows_def)

lemma accepted_regnos:
  "row_regno ` set (accepted_list tbl rows) = row_regno ` set rows - {[]} - regno ` set tbl"
proof (induction rows rule: rev_induct)
  case Nil
  show ?case by (simp add: accepted_list_Nil)
next
  case (snoc row rows)
  define r where "r = row_regno row"
  define A where "A = row_regno ` set (accepted_list tbl rows)"
  define R where "R = row_regno ` set rows"
  define T where "T = regno ` set tbl"
  have ih: "A = R - {[]} - T" using snoc by (simp add: A_def R_def T_def)
  have rhs: "row_regno ` set (rows @ [row]) = insert r R" by (simp add: r_def R_def)
  show ?case
  proof (cases "r \<noteq> [] \<and> r \<notin> T \<and> r \<notin> R")
    case True
    then have "accepted_list tbl (rows @ [row]) = accepted_list tbl rows @ [row]"
      by (simp add: accepted_list_snoc r_def T_def R_def)
    then have "row_regno ` set (accepted_list tbl (rows @ [row])) = insert r A"
      by (simp add: A_def r_def)
    also have "\<dots> = insert r R - {[]} - T" using True ih by auto
    finally show ?thesis using rhs by (simp add: T_def)
  next
    case False
    then have "accepted_list tbl (rows @ [row]) = accepted_list tbl rows"
      by (simp add: accepted_list_snoc r_def T_def R_def)
    then have "row_regno ` set (accepted_list tbl (rows @ [row])) = A"
      by (simp add: A_def)
    also have "\<dots> = insert r R - {[]} - T" using False ih by auto
    finally show ?thesis using rhs by (simp add: T_def)
  qed
qed

lemma accepted_distinct: "distinct (map row_regno (accepted_list tbl rows))"
proof (induction rows rule: rev_induct)
  case Nil
  show ?case by (simp add: accepted_list_Nil)
next
  case (snoc row rows)
  have "row_regno row \<notin> row_regno ` set rows \<Longrightarrow>
        row_regno row \<notin> row_regno ` set (accepted_list tbl rows)"
    by (simp add: accepted_regnos)
  with snoc show ?case by (simp add: accepted_list_snoc)
qed

lemma images_of_snoc:
  "m ++ images_of (rs @ [row]) = (m ++ images_of rs)(image_name (row_regno row) \<mapsto> row_regno row)"
  by (simp add: images_of_def)

lemma images_of_Nil: "m ++ images_of [] = m"
  by (simp add: images_of_def)

text \<open>
  The loop, row by row: it writes the images and adds the records of the accepted rows
  up to the first one whose image cannot be written, and raises there, if there is one.
\<close>

lemma upload_rows_spec:
  "\<exists>news.
     map regno news = map row_regno (written_rows env (table st) rows) \<and>
     map data news = map stringify_temporal (written_rows env (table st) rows) \<and>
     (\<forall>r\<in>set news. status r = ''pending'' \<and> approved_at r = None) \<and>
     upload_rows env clock rows (st, 0) =
       (if written_rows env (table st) rows = accepted_list (table st) rows
        then Inr (st\<lparr>qrcodes := qrcodes st ++ images_of (written_rows env (table st) rows),
                     table := table st @ news\<rparr>,
                  length (written_rows env (table st) rows))
        else Inl (ImageWriteError,
                  st\<lparr>qrcodes := qrcodes st ++ images_of (written_rows env (table st) rows),
                     table := table st @ news\<rparr>))"
proof (induction rows rule: rev_induct)
  case Nil
  show ?case by (simp add: accepted_list_Nil written_rows_def images_of_Nil)
next
  case (snoc row rows)
  let ?acc = "accepted_list (table st) rows"
  let ?w = "written_rows env (table st) rows"
  let ?acc' = "accepted_list (table st) (rows @ [row])"
  let ?w' = "written_rows env (table st) (rows @ [row])"
  let ?S = "\<lambda>rs news. st\<lparr>qrcodes := qrcodes st ++ images_of rs, table := table st @ news\<rparr>"
  define cond where "cond \<longleftrightarrow> row_regno row \<noteq> [] \<and> row_regno row \<notin> regno ` set (table st) \<and>
           row_regno row \<notin> row_regno ` set rows"
  have acc': "?acc' = ?acc @ (if cond then [row] else [])"
    by (simp add: accepted_list_snoc cond_def)
  from snoc obtain news where
    rg: "map regno news = map row_regno ?w"
    and dt: "map data news = map stringify_temporal ?w"
    and ok: "\<forall>r\<in>set news. status r = ''pending'' \<and> approved_at r = None"
    and run: "upload_rows env clock rows (st, 0) =
       (if ?w = ?acc then Inr (?S ?w news, length ?w) else Inl (ImageWriteError, ?S ?w news))"
    by blast
  show ?case
  proof (cases "?w = ?acc")
    case False
    then have "\<not> (\<forall>r\<in>set ?acc. row_writable env r)"
      by (simp add: written_rows_def takeWhile_eq_all_conv)
    then obtain bad where bad: "bad \<in> set ?acc" "\<not> row_writable env bad" by blast
    then have w': "?w' = ?w"
      unfolding written_rows_def acc' by (rule takeWhile_append1)
    have "bad \<in> set ?acc'" using bad(1) acc' by simp
    with bad(2) have ne: "?w' \<noteq> ?acc'"
      by (auto simp: written_rows_def takeWhile_eq_all_conv)
    have "upload_rows env clock (rows @ [row]) (st, 0) = Inl (ImageWriteError, ?S ?w news)"
      unfolding upload_rows_snoc run using False by simp
    with rg dt ok ne w' show ?thesis by auto
  next
    case True
    then have allw: "\<forall>r\<in>set ?acc. row_writable env r"
      by (simp add: written_rows_def takeWhile_eq_all_conv)
    have run': "upload_rows env clock rows (st, 0) = Inr (?S ?acc news, length ?acc)"
      using run True by simp
    have rg': "map regno news = map row_regno ?acc" using rg True by simp
    have dt': "map data news = map stringify_temporal ?acc" using dt True by simp
    let ?st' = "?S ?acc news"
    have "regno ` set news = row_regno ` set ?acc"
      using rg' by (metis set_map)
    then have tbl: "regno ` set (table ?st') =
        regno ` set (table st) \<union> (row_regno ` set rows - {[]} - regno ` set (table st))"
      by (simp add: accepted_regnos image_Un)
    show ?thesis
    proof (cases cond)
      case False
      then have skip: "row_regno row = [] \<or> row_regno row \<in> regno ` set (table ?st')"
        unfolding tbl cond_def by blast
      have a: "?acc' = ?acc" using False acc' by simp
      have w: "?w' = ?acc" unfolding written_rows_def a using allw by (simp add: takeWhile_eq_all_conv)
      have "upload_rows env clock (rows @ [row]) (st, 0) = Inr (?st', length ?acc)"
        unfolding upload_rows_snoc run' by (simp add: upload_row_skip [OF skip])
      with rg' dt' ok show ?thesis unfolding w a by auto
    next
      case c: True
      then have notin: "row_regno row \<notin> regno ` set (table ?st')"
        unfolding tbl cond_def by blast
      from c have ne: "row_regno row \<noteq> []" by (simp add: cond_def)
      have a: "?acc' = ?acc @ [row]" using c acc' by simp
      show ?thesis
      proof (cases "row_writable env row")
        case False
        have w: "?w' = ?acc"
          unfolding written_rows_def a using allw False
          by (simp add: takeWhile_append2 takeWhile_eq_all_conv)
        have "upload_rows env clock (rows @ [row]) (st, 0) = Inl (ImageWriteError, ?st')"
          unfolding upload_rows_snoc run' by (simp add: upload_row_fail [OF ne notin False])
        with rg' dt' ok show ?thesis unfolding w a by auto
      next
        case True
        have w: "?w' = ?acc @ [row]"
          unfolding written_rows_def a using allw True by (simp add: takeWhile_eq_all_conv)
        let ?new = "\<lparr>reg_id = next_id (table ?st'), regno = row_regno row,
             data = stringify_temporal row, status = ''pending'',
             created_at = clock (length ?acc), approved_at = None\<rparr>"
        have "upload_rows env clock (rows @ [row]) (st, 0) =
            Inr (?S (?acc @ [row]) (news @ [?new]), length (?acc @ [row]))"
          unfolding upload_rows_snoc run'
          by (simp add: upload_row_accept [OF ne notin True] images_of_snoc)
        moreover have "map regno (news @ [?new]) = map row_regno (?acc @ [row])"
          using rg' by simp
        moreover have "map data (news @ [?new]) = map stringify_temporal (?acc @ [row])"
          using dt' by simp
        moreover have "\<forall>r\<in>set (news @ [?new]). status r = ''pending'' \<and> approved_at r = None"
          using ok by simp
        ultimately show ?thesis unfolding w a by (intro exI [of _ "news @ [?new]"]) simp
      qed
    qed
  qed
qed

section \<open>Approval\<close>

lemma approve_row_reg_id [simp]: "reg_id (approve_row now i r) = reg_id r"
  by (simp add: approve_row_def)

lemma approve_table_ids: "reg_id ` set (map (approve_row now i) tbl) = reg_id ` set tbl"
  by (simp add: image_image)


lemma api_approve_present:
  assumes "admin sess" and "rec_id \<in> reg_id ` set (table st)"
  shows "api_approve sess now rec_id st =
      (Json 200 (JOk True), [], st\<lparr>table := map (approve_row now rec_id) (table st)\<rparr>)"
proof -
  obtain r where "find (\<lambda>r. reg_id r = rec_id) (table st) = Some r"
    using find_Some_image [OF assms(2)] by auto
  with assms(1) show ?thesis
    by (simp add: api_approve_def login_required_def query_get_def)
qed

lemma approved_rows_of_table:
  assumes "r \<in> set (map (approve_row now rec_id) tbl)" and "reg_id r = rec_id"
  shows "status r = ''approved'' \<and> approved_at r = Some now"
proof -
  from assms(1) obtain r0 where r: "r = approve_row now rec_id r0" by auto
  with assms(2) have "reg_id r0 = rec_id" by simp
  with r show ?thesis by (simp add: approve_row_def)
qed




lemma approve_row_fields:
  "regno (approve_row now i r) = regno r"
  "data (approve_row now i r) = data r"
  "created_at (approve_row now i r) = created_at r"
  "reg_id r \<noteq> i \<Longrightarrow> approve_row now i r = r"
  by (simp_all add: approve_row_def)

text \<open>
  C3. Approving a record that is pending, with an admin session, leaves the image folder
  and the number of rows as they were; every row keeps its key, its registration number,
  its data and its creation time, and every row with another key is the row it was. Only
  \<open>status\<close> and \<open>approved_at\<close> of the approved record can differ.
\<close>

theorem api_approve_frame:
  assumes "admin sess" and "r0 \<in> set (table st)" and "reg_id r0 = rec_id"
    and "status r0 = ''pending''"
  shows "\<exists>st'. api_approve sess now rec_id st = (Json 200 (JOk True), [], st') \<and>
           qrcodes st' = qrcodes st \<and> length (table st') = length (table st) \<and>
           (\<forall>i<length (table st).
               reg_id (table st' ! i) = reg_id (table st ! i) \<and>
               regno (table st' ! i) = regno (table st ! i) \<and>
               data (table st' ! i) = data (table st ! i) \<and>
               created_at (table st' ! i) = created_at (table st ! i) \<and>
               (reg_id (table st ! i) \<noteq> rec_id \<longrightarrow> table st' ! i = table st ! i))"
proof -
  let ?st' = "st\<lparr>table := map (approve_row now rec_id) (table st)\<rparr>"
  have "rec_id \<in> reg_id ` set (table st)" using assms(2,3) by blast
  with assms(1) have "api_approve sess now rec_id st = (Json 200 (JOk True), [], ?st')"
    by (rule api_approve_present)
  moreover have "\<forall>i<length (table st).
               reg_id (table ?st' ! i) = reg_id (table st ! i) \<and>
               regno (table ?st' ! i) = regno (table st ! i) \<and>
               data (table ?st' ! i) = data (table st ! i) \<and>
               created_at (table ?st' ! i) = created_at (table st ! i) \<and>
               (reg_id (table st ! i) \<noteq> rec_id \<longrightarrow> table ?st' ! i = table st ! i)"
    by (simp add: approve_row_fields)
  ultimately show ?thesis by simp
qed

theorem api_approve_frame_witness:
  "admin admin_session \<and> example_record \<in> set (table two_state) \<and>
   reg_id example_record = 1 \<and> status example_record = ''pending'' \<and>
   api_approve admin_session 20 1 two_state =
     (Json 200 (JOk True), [],
      two_state\<lparr>table := [example_record\<lparr>status := ''approved'', approved_at := Some 20\<rparr>,
                           second_record]\<rparr>)"
  using api_approve_frame [of admin_session example_record two_state 1 20]
  by (simp add: admin_session_def two_state_def example_record_def second_record_def
      api_approve_def login_required_def query_get_def approve_row_def)

text \<open>
  C9, as stated, fails: the new approval time is the reading of the clock at the second
  call, and nothing makes that reading later than the stored one. Here the record was
  approved at 20; approved again at a reading of 20 it keeps 20, and at a reading of 15
  it goes back to 15.
\<close>

theorem reapprove_not_newer:
  "map approved_at (table approved_state) = [Some 20] \<and>
   map status (table approved_state) = [''approved''] \<and>
   fst (api_approve admin_session 20 1 approved_state) = Json 200 (JOk True) \<and>
   map approved_at (table (snd (snd (api_approve admin_session 20 1 approved_state)))) = [Some 20] \<and>
   fst (api_approve admin_session 15 1 approved_state) = Json 200 (JOk True) \<and>
   map approved_at (table (snd (snd (api_approve admin_session 15 1 approved_state)))) = [Some 15]"
  by (simp add: admin_session_def approved_state_def example_record_def
      api_approve_def login_required_def query_get_def approve_row_def)

text \<open>
  C9, amended. With an admin session, approving a record that is already approved
  succeeds and is no guarded no-op: the record stays approved and its approval time
  becomes the reading of the clock at this call, whatever was stored. The new time is
  later than the stored one exactly when the clock reading is.
\<close>

theorem api_approve_again:
  assumes "admin sess" and "r0 \<in> set (table st)" and "reg_id r0 = rec_id"
    and "status r0 = ''approved''"
  shows "\<exists>st'. api_approve sess now rec_id st = (Json 200 (JOk True), [], st') \<and>
           rec_id \<in> reg_id ` set (table st') \<and>
           (\<forall>r \<in> set (table st'). reg_id r = rec_id \<longrightarrow>
              status r = ''approved'' \<and> approved_at r = Some now \<and>
              (\<forall>t. approved_at r0 = Some t \<longrightarrow>
                 (t < now \<longleftrightarrow> (\<exists>t'. approved_at r = Some t' \<and> t < t'))))"
proof -
  let ?st' = "st\<lparr>table := map (approve_row now rec_id) (table st)\<rparr>"
  have m: "rec_id \<in> reg_id ` set (table st)" using assms(2,3) by blast
  with assms(1) have "api_approve sess now rec_id st = (Json 200 (JOk True), [], ?st')"
    by (rule api_approve_present)
  moreover have "rec_id \<in> reg_id ` set (table ?st')"
    using m by (simp add: approve_table_ids del: set_map)
  moreover have "\<forall>r \<in> set (table ?st'). reg_id r = rec_id \<longrightarrow>
              status r = ''approved'' \<and> approved_at r = Some now \<and>
              (\<forall>t. approved_at r0 = Some t \<longrightarrow>
                 (t < now \<longleftrightarrow> (\<exists>t'. approved_at r = Some t' \<and> t < t')))"
    using approved_rows_of_table [of _ now rec_id "table st"] by auto
  ultimately show ?thesis by blast
qed

theorem api_approve_again_witness:
  "admin admin_session \<and> hd (table approved_state) \<in> set (table approved_state) \<and>
   reg_id (hd (table approved_state)) = 1 \<and> status (hd (table approved_state)) = ''approved'' \<and>
   approved_at (hd (table approved_state)) = Some 20 \<and> (20::int) < 30 \<and>
   fst (api_approve admin_session 30 1 approved_state) = Json 200 (JOk True) \<and>
   map status (table (snd (snd (api_approve admin_session 30 1 approved_state)))) = [''approved''] \<and>
   map approved_at (table (snd (snd (api_approve admin_session 30 1 approved_state)))) = [Some 30]"
  using api_approve_again [of admin_session "hd (table approved_state)" approved_state 1 30]
  by (simp add: admin_session_def approved_state_def example_record_def
      api_approve_def login_required_def query_get_def approve_row_def)

section \<open>Export and lookup\<close>

lemma first_seen_set [simp]: "set (first_seen xs) = set xs"
  by (simp add: first_seen_def)

lemma first_seen_distinct [simp]: "distinct (first_seen xs)"
  by (simp add: first_seen_def)




text \<open>
  C7. With an admin session, looking up a registration number that no record has answers
  404 with the body \<open>{error: "not found"}\<close>; looking up one that a record has answers
  with the key, the data and the status of a stored record with that number.
\<close>

theorem api_get_by_regno_result:
  "admin sess \<Longrightarrow>
   (q \<notin> regno ` set (table st) \<longrightarrow>
      api_get_by_regno sess q st = (Json 404 (JError ''not found''), [], st)) \<and>
   (q \<in> regno ` set (table st) \<longrightarrow>
      (\<exists>r \<in> set (table st). regno r = q \<and>
         api_get_by_regno sess q st =
           (Json 200 (JRecord (reg_id r) (data r) (status r)), [], st)))"
proof (intro conjI impI)
  assume a: "admin sess" and "q \<notin> regno ` set (table st)"
  then have "first_by_regno q (table st) = None"
    by (simp add: first_by_regno_None del: set_map)
  with a show "api_get_by_regno sess q st = (Json 404 (JError ''not found''), [], st)"
    by (simp add: api_get_by_regno_def login_required_def)
next
  assume a: "admin sess" and "q \<in> regno ` set (table st)"
  then obtain r where "r \<in> set (table st)" "regno r = q" "first_by_regno q (table st) = Some r"
    using find_Some_image [of q regno "table st"] by (auto simp: first_by_regno_def)
  with a show "\<exists>r \<in> set (table st). regno r = q \<and>
         api_get_by_regno sess q st =
           (Json 200 (JRecord (reg_id r) (data r) (status r)), [], st)"
    by (auto simp: api_get_by_regno_def login_required_def)
qed

theorem api_get_by_regno_result_witness:
  "admin admin_session \<and> ''ZZ'' \<notin> regno ` set (table example_state) \<and>
   api_get_by_regno admin_session ''ZZ'' example_state =
     (Json 404 (JError ''not found''), [], example_state) \<and>
   ''A1'' \<in> regno ` set (table example_state) \<and>
   api_get_by_regno admin_session ''A1'' example_state =
     (Json 200 (JRecord 1 [(''Reg No'', PyStr ''A1''), (''Name'', PyStr ''Alice'')] ''pending''),
      [], example_state)"
  using api_get_by_regno_result [of admin_session "''ZZ''" example_state]
        api_get_by_regno_result [of admin_session "''A1''" example_state]
  by (simp add: admin_session_def example_state_def example_record_def
      api_get_by_regno_def login_required_def first_by_regno_def)


section \<open>Upload: the loop and its repetition\<close>

lemma upload_valid:
  assumes "valid_upload sess req rows"
  shows "upload sess env clock req st =
     (case upload_rows env clock rows (st, 0) of
        Inl (e, st') \<Rightarrow> (InternalServerError, [], st\<lparr>qrcodes := qrcodes st'\<rparr>)
      | Inr (st', created) \<Rightarrow>
          (Redirect RequestUrl,
           [Flash (''Processed file. '' @ str_nat created @ '' records added to pending.'')
                  ''success''],
           st'))"
proof -
  from assms obtain f where "admin sess" "http_method req = POST" "file_field req = Some f"
    "allowed_file (secure_name f)" "parsed f = Inr rows"
    by (auto simp: valid_upload_def split: option.splits)
  then show ?thesis
    by (simp add: upload_def upload_body_def login_required_def)
qed

lemma upload_invalid:
  assumes "\<forall>rows. \<not> valid_upload sess req rows"
  shows "snd (snd (upload sess env clock req st)) = st"
proof (cases "admin sess \<and> http_method req = POST")
  case False
  then show ?thesis
    by (auto simp: upload_def upload_body_def login_required_def)
next
  case True
  show ?thesis
  proof (cases "file_field req")
    case None
    with True show ?thesis by (simp add: upload_def upload_body_def login_required_def)
  next
    case (Some f)
    show ?thesis
    proof (cases "allowed_file (secure_name f)")
      case False
      with True Some show ?thesis by (simp add: upload_def upload_body_def login_required_def)
    next
      case allowed: True
      show ?thesis
      proof (cases "parsed f")
        case (Inl e)
        with True Some allowed show ?thesis
          by (simp add: upload_def upload_body_def login_required_def)
      next
        case (Inr rows)
        with True Some allowed have "valid_upload sess req rows"
          by (simp add: valid_upload_def)
        with assms show ?thesis by blast
      qed
    qed
  qed
qed

text \<open>
  C1: the code does not do what the claim says. The file of the specification's scenario
  has an empty \<open>Reg No\<close> cell in its third row; the reader returns it as the float
  \<^verbatim>\<open>nan\<close>, which is true for the \<^verbatim>\<open>or\<close> chain of line 110 and has the text \<open>nan\<close>.
  The row is not skipped: two records are added, \<open>A1\<close> and \<open>nan\<close>, the message reports
  2, the pending count is 2 and there is an image \<open>nan.png\<close>. In the second file the
  identifier \<open>x/y\<close> names an image in a sub-directory that does not exist; saving it
  raises, the request ends with the server error 500 before the commit, and no record is
  stored, neither for \<open>A1\<close>, whose image stays in the folder, nor for \<open>C3\<close>.
\<close>

theorem upload_scenario_stores_blank_row:
  "valid_upload admin_session (csv_request scenario_rows) scenario_rows \<and>
   fst (snd (upload admin_session example_env example_clock (csv_request scenario_rows)
               initial_state)) =
     [Flash ''Processed file. 2 records added to pending.'' ''success''] \<and>
   map regno (table (snd (snd (upload admin_session example_env example_clock
                                 (csv_request scenario_rows) initial_state)))) =
     [''A1'', ''nan''] \<and>
   count_by_status ''pending''
     (table (snd (snd (upload admin_session example_env example_clock
                         (csv_request scenario_rows) initial_state)))) = 2 \<and>
   qrcodes (snd (snd (upload admin_session example_env example_clock
                        (csv_request scenario_rows) initial_state))) ''nan.png'' = Some ''nan'' \<and>
   valid_upload admin_session (csv_request slash_rows) slash_rows \<and>
   accepted_rows (table initial_state) slash_rows = [0, 1, 2] \<and>
   fst (upload admin_session example_env example_clock (csv_request slash_rows) initial_state) =
     InternalServerError \<and>
   table (snd (snd (upload admin_session example_env example_clock (csv_request slash_rows)
                      initial_state))) = [] \<and>
   qrcodes (snd (snd (upload admin_session example_env example_clock (csv_request slash_rows)
                        initial_state))) ''A1.png'' = Some ''A1''"
  by code_simp

lemma map_add_twice: "(m ++ n) ++ n = m ++ n"
  by (rule ext) (simp add: map_add_def split: option.split)

lemma written_rows_all: "written_rows env tbl rows = accepted_list tbl rows \<longleftrightarrow>
    (\<forall>r\<in>set (accepted_list tbl rows). row_writable env r)"
  by (simp add: written_rows_def takeWhile_eq_all_conv)

text \<open>After a loop that did not raise, every identifier of the file is in the table.\<close>

lemma upload_rows_regnos:
  assumes "upload_rows env clock rows (st, 0) = Inr (st', c)"
  shows "regno ` set (table st') = regno ` set (table st) \<union> (row_regno ` set rows - {[]})"
proof -
  let ?w = "written_rows env (table st) rows"
  let ?acc = "accepted_list (table st) rows"
  obtain news where rg: "map regno news = map row_regno ?w"
    and run: "upload_rows env clock rows (st, 0) =
       (if ?w = ?acc
        then Inr (st\<lparr>qrcodes := qrcodes st ++ images_of ?w, table := table st @ news\<rparr>, length ?w)
        else Inl (ImageWriteError,
                  st\<lparr>qrcodes := qrcodes st ++ images_of ?w, table := table st @ news\<rparr>))"
    using upload_rows_spec [of env st rows clock] by blast
  from run assms have w: "?w = ?acc" by (auto split: if_splits)
  with run assms have st': "table st' = table st @ news" by auto
  have "regno ` set news = row_regno ` set ?acc"
    using rg w by (metis set_map)
  then have "regno ` set (table st @ news) =
      regno ` set (table st) \<union> (row_regno ` set rows - {[]} - regno ` set (table st))"
    by (simp add: accepted_regnos image_Un)
  also have "\<dots> = regno ` set (table st) \<union> (row_regno ` set rows - {[]})" by blast
  finally show ?thesis by (simp add: st')
qed

lemma upload_rows_again:
  assumes "upload_rows env clock1 rows (st, 0) = Inr (st1, c)"
  shows "upload_rows env clock2 rows (st1, 0) = Inr (st1, 0)"
proof -
  have "row_regno ` set (accepted_list (table st1) rows) = {}"
    unfolding accepted_regnos upload_rows_regnos [OF assms] by blast
  then have none: "accepted_list (table st1) rows = []" by simp
  then have w: "written_rows env (table st1) rows = []" by (simp add: written_rows_def)
  obtain news where rg: "map regno news = map row_regno (written_rows env (table st1) rows)"
    and run: "upload_rows env clock2 rows (st1, 0) =
       (if written_rows env (table st1) rows = accepted_list (table st1) rows
        then Inr (st1\<lparr>qrcodes := qrcodes st1 ++ images_of (written_rows env (table st1) rows),
                      table := table st1 @ news\<rparr>,
                  length (written_rows env (table st1) rows))
        else Inl (ImageWriteError,
                  st1\<lparr>qrcodes := qrcodes st1 ++ images_of (written_rows env (table st1) rows),
                      table := table st1 @ news\<rparr>))"
    using upload_rows_spec [of env st1 rows clock2] by blast
  from rg w have "news = []" by simp
  with run none w show ?thesis by (simp add: images_of_Nil)
qed

text \<open>
  After a loop that raised, the same loop raises again at the same row and writes the
  same images.
\<close>

lemma upload_rows_fails_again:
  assumes "upload_rows env clock1 rows (st, 0) = Inl (e, st1)"
  shows "\<exists>st2. upload_rows env clock2 rows (st\<lparr>qrcodes := qrcodes st1\<rparr>, 0) = Inl (e, st2) \<and>
               qrcodes st2 = qrcodes st1"
proof -
  let ?w = "written_rows env (table st) rows"
  let ?acc = "accepted_list (table st) rows"
  let ?st = "st\<lparr>qrcodes := qrcodes st1\<rparr>"
  obtain news where
    run: "upload_rows env clock1 rows (st, 0) =
       (if ?w = ?acc
        then Inr (st\<lparr>qrcodes := qrcodes st ++ images_of ?w, table := table st @ news\<rparr>, length ?w)
        else Inl (ImageWriteError,
                  st\<lparr>qrcodes := qrcodes st ++ images_of ?w, table := table st @ news\<rparr>))"
    using upload_rows_spec [of env st rows clock1] by blast
  from run assms have w: "?w \<noteq> ?acc" and e: "e = ImageWriteError"
    and q: "qrcodes st1 = qrcodes st ++ images_of ?w"
    by (auto split: if_splits)
  obtain news2 where
    run2: "upload_rows env clock2 rows (?st, 0) =
       (if written_rows env (table ?st) rows = accepted_list (table ?st) rows
        then Inr (?st\<lparr>qrcodes := qrcodes ?st ++ images_of (written_rows env (table ?st) rows),
                      table := table ?st @ news2\<rparr>,
                  length (written_rows env (table ?st) rows))
        else Inl (ImageWriteError,
                  ?st\<lparr>qrcodes := qrcodes ?st ++ images_of (written_rows env (table ?st) rows),
                      table := table ?st @ news2\<rparr>))"
    using upload_rows_spec [of env ?st rows clock2] by blast
  have "upload_rows env clock2 rows (?st, 0) =
      Inl (e, ?st\<lparr>qrcodes := qrcodes st1 ++ images_of ?w, table := table st @ news2\<rparr>)"
    using run2 w e by simp
  moreover have "qrcodes st1 ++ images_of ?w = qrcodes st1"
    unfolding q by (rule map_add_twice)
  ultimately show ?thesis by simp
qed

lemma str_nat_0: "str_nat 0 = ''0''"
  by (simp add: str_nat.simps digit_char_def)

text \<open>
  C2. Sending the same request a second time, right after the first, returns the state the
  first one left: no record and no image is added. When the upload is valid and the first
  request did not fail, the second answer reports zero records added.
\<close>

theorem upload_again_adds_nothing:
  "snd (snd (upload sess env clock2 req (snd (snd (upload sess env clock1 req st))))) =
     snd (snd (upload sess env clock1 req st)) \<and>
   (valid_upload sess req rows \<and> fst (upload sess env clock1 req st) \<noteq> InternalServerError \<longrightarrow>
      upload sess env clock2 req (snd (snd (upload sess env clock1 req st))) =
        (Redirect RequestUrl, [Flash ''Processed file. 0 records added to pending.'' ''success''],
         snd (snd (upload sess env clock1 req st))))"
proof (cases "\<exists>rows. valid_upload sess req rows")
  case False
  then have "\<forall>rows. \<not> valid_upload sess req rows" by blast
  then show ?thesis by (simp add: upload_invalid)
next
  case True
  then obtain rows' where v: "valid_upload sess req rows'" by blast
  show ?thesis
  proof (cases "upload_rows env clock1 rows' (st, 0)")
    case (Inr x)
    obtain st1 c where x: "x = (st1, c)" by (cases x)
    have r1: "upload_rows env clock1 rows' (st, 0) = Inr (st1, c)" using Inr x by simp
    have first: "snd (snd (upload sess env clock1 req st)) = st1"
      by (simp add: upload_valid [OF v] r1)
    have second: "upload sess env clock2 req st1 =
      (Redirect RequestUrl, [Flash ''Processed file. 0 records added to pending.'' ''success''], st1)"
      by (simp add: upload_valid [OF v] upload_rows_again [OF r1] str_nat_0)
    show ?thesis unfolding first using second by simp
  next
    case (Inl y)
    obtain e st1 where y: "y = (e, st1)" by (cases y)
    have r1: "upload_rows env clock1 rows' (st, 0) = Inl (e, st1)" using Inl y by simp
    have res: "upload sess env clock1 req st = (InternalServerError, [], st\<lparr>qrcodes := qrcodes st1\<rparr>)"
      by (simp add: upload_valid [OF v] r1)
    obtain st2 where r2: "upload_rows env clock2 rows' (st\<lparr>qrcodes := qrcodes st1\<rparr>, 0) = Inl (e, st2)"
      and q: "qrcodes st2 = qrcodes st1"
      using upload_rows_fails_again [OF r1] by blast
    have "snd (snd (upload sess env clock2 req (st\<lparr>qrcodes := qrcodes st1\<rparr>))) =
        st\<lparr>qrcodes := qrcodes st1\<rparr>"
      by (simp add: upload_valid [OF v] r2 q)
    then show ?thesis by (simp add: res)
  qed
qed

theorem upload_again_adds_nothing_witness:
  "valid_upload admin_session example_request example_rows \<and>
   fst (upload admin_session example_env example_clock example_request initial_state) =
     Redirect RequestUrl \<and>
   table (snd (snd (upload admin_session example_env example_clock example_request
                      initial_state))) = [example_record] \<and>
   upload admin_session example_env example_clock example_request
       (snd (snd (upload admin_session example_env example_clock example_request initial_state))) =
     (Redirect RequestUrl, [Flash ''Processed file. 0 records added to pending.'' ''success''],
      snd (snd (upload admin_session example_env example_clock example_request initial_state)))"
proof -
  have v: "valid_upload admin_session example_request example_rows" by code_simp
  have f: "fst (upload admin_session example_env example_clock example_request initial_state) =
     Redirect RequestUrl" by code_simp
  have e: "table (snd (snd (upload admin_session example_env example_clock example_request
                      initial_state))) = [example_record]" by code_simp
  from upload_again_adds_nothing [of admin_session example_env example_clock example_request
      example_clock initial_state example_rows] v f e
  show ?thesis by simp
qed

section \<open>Resolving the identifier of a row\<close>

text \<open>
  C8, as stated, fails on its last sentence. The emptiness test of line 110 is Python's
  truth test of the raw cell value, made before \<^verbatim>\<open>strip\<close>: a \<open>Reg No\<close> of two
  spaces is true, so it is chosen; its trimmed text is empty and the row is skipped,
  although the column \<open>regno\<close> holds \<open>A1\<close>.
\<close>

theorem blank_first_column_skips_row:
  "dict_get blank_first_row ''Reg No'' = PyStr ''  '' \<and>
   dict_get blank_first_row ''regno'' = PyStr ''A1'' \<and>
   row_regno blank_first_row = [] \<and>
   fst (snd (upload admin_session example_env example_clock (csv_request [blank_first_row])
               initial_state)) =
     [Flash ''Processed file. 0 records added to pending.'' ''success''] \<and>
   table (snd (snd (upload admin_session example_env example_clock
                      (csv_request [blank_first_row]) initial_state))) = []"
  by code_simp

lemma map_of_stringify:
  "map_of (stringify_temporal row) k =
     map_option (\<lambda>v. case v of PyTemporal s \<Rightarrow> PyStr s | _ \<Rightarrow> v) (map_of row k)"
  unfolding stringify_temporal_def by (induction row) (auto split: pyval.split)

lemma dict_get_not_temporal: "dict_get (stringify_temporal row) k \<noteq> PyTemporal s"
  by (cases "map_of row k")
     (auto simp: dict_get_def map_of_stringify split: pyval.splits)

lemma truthy_passed_over:
  "\<not> is_float v \<Longrightarrow> (\<And>s. v \<noteq> PyTemporal s) \<Longrightarrow> truthy v \<longleftrightarrow> \<not> passed_over v"
  by (cases v) (auto simp: passed_over_def is_float_def)

lemma strip_all_space: "\<forall>c\<in>set s. is_space c \<Longrightarrow> strip s = []"
proof -
  assume "\<forall>c\<in>set s. is_space c"
  then have d: "dropWhile is_space s = []" by simp
  show ?thesis unfolding strip_def d by simp
qed

text \<open>
  C8, amended. For every parsed row whose cells under \<open>Reg No\<close>, \<open>regno\<close> and \<open>ID\<close>
  hold no float, the identifier is resolved by checking these columns in that order, the
  first value that is not passed over winning, where a missing column, \<^verbatim>\<open>None\<close>,
  \<^verbatim>\<open>False\<close>, zero and the empty string are passed over (the test is made on the raw
  value, before trimming); the identifier is the trimmed text of the winner, and the
  empty string when there is no winner. If the identifier is empty the row is skipped,
  neither counted nor stored. In particular a row whose \<open>Reg No\<close> is a text that is not
  empty and consists of whitespace only is skipped, whatever \<open>regno\<close> and \<open>ID\<close>
  hold.
\<close>

theorem resolve_regno_first_kept:
  "\<not> list_ex is_float (identifier_cells row) \<Longrightarrow>
   row_regno row =
     strip (py_str (case filter (\<lambda>v. \<not> passed_over v) (identifier_cells row) of
                      [] \<Rightarrow> PyStr [] | v # _ \<Rightarrow> v)) \<and>
   (row_regno row = [] \<longrightarrow> upload_row env clock row (st, n) = Inr (st, n)) \<and>
   (\<forall>s. dict_get (stringify_temporal row) ''Reg No'' = PyStr s \<and> s \<noteq> [] \<and>
        (\<forall>c\<in>set s. is_space c) \<longrightarrow>
        row_regno row = [] \<and> upload_row env clock row (st, n) = Inr (st, n))"
proof (intro conjI allI impI)
  let ?a = "dict_get (stringify_temporal row) ''Reg No''"
  let ?b = "dict_get (stringify_temporal row) ''regno''"
  let ?c = "dict_get (stringify_temporal row) ''ID''"
  assume nf: "\<not> list_ex is_float (identifier_cells row)"
  have ta: "truthy ?a \<longleftrightarrow> \<not> passed_over ?a"
    using nf by (intro truthy_passed_over) (simp_all add: identifier_cells_def dict_get_not_temporal)
  have tb: "truthy ?b \<longleftrightarrow> \<not> passed_over ?b"
    using nf by (intro truthy_passed_over) (simp_all add: identifier_cells_def dict_get_not_temporal)
  have tc: "truthy ?c \<longleftrightarrow> \<not> passed_over ?c"
    using nf by (intro truthy_passed_over) (simp_all add: identifier_cells_def dict_get_not_temporal)
  show "row_regno row =
     strip (py_str (case filter (\<lambda>v. \<not> passed_over v) (identifier_cells row) of
                      [] \<Rightarrow> PyStr [] | v # _ \<Rightarrow> v))"
    using ta tb tc
    by (simp add: row_regno_def resolve_regno_def py_or_def identifier_cells_def)
  show "upload_row env clock row (st, n) = Inr (st, n)" if "row_regno row = []"
    using that by (simp add: upload_row_skip)
  show r: "row_regno row = []"
    if "?a = PyStr s \<and> s \<noteq> [] \<and> (\<forall>c\<in>set s. is_space c)" for s
    using that by (simp add: row_regno_def resolve_regno_def py_or_def strip_all_space)
  show "upload_row env clock row (st, n) = Inr (st, n)"
    if "?a = PyStr s \<and> s \<noteq> [] \<and> (\<forall>c\<in>set s. is_space c)" for s
    using r [OF that] by (simp add: upload_row_skip)
qed

theorem resolve_regno_first_kept_witness:
  "\<not> list_ex is_float (identifier_cells blank_first_row) \<and>
   dict_get (stringify_temporal blank_first_row) ''Reg No'' = PyStr ''  '' \<and>
   is_space CHR '' '' \<and>
   row_regno blank_first_row = [] \<and>
   upload_row example_env example_clock blank_first_row (example_state, 0) =
     Inr (example_state, 0) \<and>
   \<not> list_ex is_float (identifier_cells zero_first_row) \<and>
   filter (\<lambda>v. \<not> passed_over v) (identifier_cells zero_first_row) = [PyStr '' B7 '', PyInt 12] \<and>
   row_regno zero_first_row = ''B7''"
proof -
  have nb: "\<not> list_ex is_float (identifier_cells blank_first_row)" by code_simp
  have nz: "\<not> list_ex is_float (identifier_cells zero_first_row)" by code_simp
  have g: "dict_get (stringify_temporal blank_first_row) ''Reg No'' = PyStr ''  ''" by code_simp
  have sp: "is_space CHR '' ''" by code_simp
  have f: "filter (\<lambda>v. \<not> passed_over v) (identifier_cells zero_first_row) =
      [PyStr '' B7 '', PyInt 12]" by code_simp
  have s: "strip '' B7 '' = ''B7''" by code_simp
  note blank = resolve_regno_first_kept [OF nb, of example_env example_clock example_state 0]
  have pre: "dict_get (stringify_temporal blank_first_row) ''Reg No'' = PyStr ''  '' \<and>
      ''  '' \<noteq> [] \<and> (\<forall>c\<in>set ''  ''. is_space c)"
    using g sp by simp
  from blank [THEN conjunct2, THEN conjunct2, rule_format, OF pre]
  have "row_regno blank_first_row = [] \<and>
      upload_row example_env example_clock blank_first_row (example_state, 0) =
        Inr (example_state, 0)" .
  moreover from resolve_regno_first_kept [OF nz, THEN conjunct1] f s
  have "row_regno zero_first_row = ''B7''" by simp
  ultimately show ?thesis using nb nz g sp f by simp
qed

section \<open>Reachable states\<close>

lemma row_regno_trimmed: "row_regno row \<noteq> [] \<Longrightarrow> trimmed (row_regno row)"
  unfolding row_regno_def resolve_regno_def by (rule strip_trimmed)

lemma upload_rows_table:
  assumes "upload_rows env clock rows (st, 0) = Inr (st', c)"
  shows "\<exists>news. table st' = table st @ news \<and>
          (\<forall>r\<in>set news. status r = ''pending'' \<and> approved_at r = None \<and> trimmed (regno r))"
proof -
  let ?w = "written_rows env (table st) rows"
  let ?acc = "accepted_list (table st) rows"
  obtain news where rg: "map regno news = map row_regno ?w"
    and ok: "\<forall>r\<in>set news. status r = ''pending'' \<and> approved_at r = None"
    and run: "upload_rows env clock rows (st, 0) =
       (if ?w = ?acc
        then Inr (st\<lparr>qrcodes := qrcodes st ++ images_of ?w, table := table st @ news\<rparr>, length ?w)
        else Inl (ImageWriteError,
                  st\<lparr>qrcodes := qrcodes st ++ images_of ?w, table := table st @ news\<rparr>))"
    using upload_rows_spec [of env st rows clock] by blast
  from run assms have w: "?w = ?acc" by (auto split: if_splits)
  with run assms have t: "table st' = table st @ news" by auto
  have "regno ` set news = row_regno ` set ?acc"
    using rg w by (metis set_map)
  then have in_rows: "regno ` set news \<subseteq> row_regno ` set rows - {[]}"
    unfolding accepted_regnos by blast
  have "\<forall>r\<in>set news. trimmed (regno r)"
  proof
    fix r assume "r \<in> set news"
    then have "regno r \<in> row_regno ` set rows - {[]}" using in_rows by blast
    then obtain row where "regno r = row_regno row" "row_regno row \<noteq> []" by auto
    then show "trimmed (regno r)" by (simp add: row_regno_trimmed)
  qed
  with ok have "\<forall>r\<in>set news. status r = ''pending'' \<and> approved_at r = None \<and> trimmed (regno r)"
    by blast
  with t show ?thesis by blast
qed

text \<open>
  The state after an upload: the state before it, or the state the loop reached without
  raising, or the state before it with more images.
\<close>

lemma upload_state_cases:
  "snd (snd (upload sess env clock req st)) = st \<or>
   (\<exists>rows c. upload_rows env clock rows (st, 0) = Inr (snd (snd (upload sess env clock req st)), c)) \<or>
   (\<exists>q. snd (snd (upload sess env clock req st)) = st\<lparr>qrcodes := q\<rparr>)"
proof (cases "\<exists>rows. valid_upload sess req rows")
  case False
  then have "snd (snd (upload sess env clock req st)) = st"
    by (simp add: upload_invalid)
  then show ?thesis by blast
next
  case True
  then obtain rows where v: "valid_upload sess req rows" by blast
  show ?thesis
  proof (cases "upload_rows env clock rows (st, 0)")
    case (Inr x)
    obtain st1 c where x: "x = (st1, c)" by (cases x)
    have "snd (snd (upload sess env clock req st)) = st1"
      by (simp add: upload_valid [OF v] Inr x)
    with Inr x show ?thesis by auto
  next
    case (Inl y)
    obtain e st1 where y: "y = (e, st1)" by (cases y)
    have "snd (snd (upload sess env clock req st)) = st\<lparr>qrcodes := qrcodes st1\<rparr>"
      by (simp add: upload_valid [OF v] Inl y)
    then show ?thesis by blast
  qed
qed

lemma approve_state_cases:
  "snd (snd (api_approve sess now i st)) = st \<or>
   snd (snd (api_approve sess now i st)) = st\<lparr>table := map (approve_row now i) (table st)\<rparr>"
  by (simp add: api_approve_def login_required_def split: sum.split option.split)

text \<open>What one operation does to the table: old rows stay in place, each either as it
  was or approved; new rows are appended, pending and with a trimmed registration number.\<close>

lemma perform_table:
  "\<exists>f news. table (perform op st) = map f (table st) @ news \<and>
     (\<forall>r. f r = r \<or> (\<exists>now. f r = r\<lparr>status := ''approved'', approved_at := Some now\<rparr>)) \<and>
     (\<forall>r\<in>set news. status r = ''pending'' \<and> approved_at r = None \<and> trimmed (regno r))"
proof -
  let ?Q = "\<lambda>f news. table (perform op st) = map f (table st) @ news \<and>
     (\<forall>r. f r = r \<or> (\<exists>now. f r = r\<lparr>status := ''approved'', approved_at := Some now\<rparr>)) \<and>
     (\<forall>r\<in>set news. status r = ''pending'' \<and> approved_at r = None \<and> trimmed (regno r))"
  have same: "?Q (\<lambda>r. r) []" if "table (perform op st) = table st"
    using that by simp
  show ?thesis
  proof (cases op)
    case (Upload sess env clock req)
    from upload_state_cases [of sess env clock req st]
    consider "perform op st = st"
      | rows c where "upload_rows env clock rows (st, 0) = Inr (perform op st, c)"
      | q where "perform op st = st\<lparr>qrcodes := q\<rparr>"
      using Upload by auto
    then show ?thesis
    proof cases
      case 1
      then have "?Q (\<lambda>r. r) []" by (simp add: same)
      then show ?thesis by blast
    next
      case 2
      obtain news where "table (perform op st) = table st @ news"
        and "\<forall>r\<in>set news. status r = ''pending'' \<and> approved_at r = None \<and> trimmed (regno r)"
        using upload_rows_table [OF 2] by blast
      then have "?Q (\<lambda>r. r) news" by simp
      then show ?thesis by blast
    next
      case 3
      then have "?Q (\<lambda>r. r) []" by (simp add: same)
      then show ?thesis by blast
    qed
  next
    case (Approve sess now i)
    from approve_state_cases [of sess now i st]
    consider "perform op st = st"
      | "perform op st = st\<lparr>table := map (approve_row now i) (table st)\<rparr>"
      using Approve by auto
    then show ?thesis
    proof cases
      case 1
      then have "?Q (\<lambda>r. r) []" by (simp add: same)
      then show ?thesis by blast
    next
      case 2
      have "\<forall>r. approve_row now i r = r \<or>
              (\<exists>now'. approve_row now i r = r\<lparr>status := ''approved'', approved_at := Some now'\<rparr>)"
        by (simp add: approve_row_def) blast
      with 2 have "?Q (approve_row now i) []" by simp
      then show ?thesis by blast
    qed
  qed
qed

lemma record_ok_step:
  assumes "record_ok r"
    and "f r = r \<or> (\<exists>now. f r = r\<lparr>status := ''approved'', approved_at := Some now\<rparr>)"
  shows "record_ok (f r)"
  using assms by (auto simp: record_ok_def)

lemma record_ok_new: "status r = ''pending'' \<Longrightarrow> approved_at r = None \<Longrightarrow> record_ok r"
  by (simp add: record_ok_def)

lemma reachable_ok: "reachable st \<Longrightarrow> \<forall>r\<in>set (table st). record_ok r"
proof (induction rule: reachable.induct)
  case reachable_initial
  show ?case by (simp add: initial_state_def)
next
  case (reachable_perform st op)
  obtain f news where t: "table (perform op st) = map f (table st) @ news"
    and f: "\<forall>r. f r = r \<or> (\<exists>now. f r = r\<lparr>status := ''approved'', approved_at := Some now\<rparr>)"
    and n: "\<forall>r\<in>set news. status r = ''pending'' \<and> approved_at r = None \<and> trimmed (regno r)"
    using perform_table [of op st] by blast
  show ?case
  proof
    fix r assume "r \<in> set (table (perform op st))"
    then consider r0 where "r0 \<in> set (table st)" "r = f r0" | "r \<in> set news"
      unfolding t by auto
    then show "record_ok r"
    proof cases
      case 1
      with reachable_perform.IH have "record_ok r0" by blast
      then show ?thesis unfolding 1(2) using f [rule_format, of r0] by (rule record_ok_step)
    next
      case 2
      with n show ?thesis by (simp add: record_ok_new)
    qed
  qed
qed

lemma reachable_trimmed: "reachable st \<Longrightarrow> \<forall>r\<in>set (table st). trimmed (regno r)"
proof (induction rule: reachable.induct)
  case reachable_initial
  show ?case by (simp add: initial_state_def)
next
  case (reachable_perform st op)
  obtain f news where t: "table (perform op st) = map f (table st) @ news"
    and f: "\<forall>r. f r = r \<or> (\<exists>now. f r = r\<lparr>status := ''approved'', approved_at := Some now\<rparr>)"
    and n: "\<forall>r\<in>set news. status r = ''pending'' \<and> approved_at r = None \<and> trimmed (regno r)"
    using perform_table [of op st] by blast
  have keep: "regno (f r) = regno r" for r
    using f [rule_format, of r] by auto
  show ?case
  proof
    fix r assume "r \<in> set (table (perform op st))"
    then consider r0 where "r0 \<in> set (table st)" "r = f r0" | "r \<in> set news"
      unfolding t by auto
    then show "trimmed (regno r)"
    proof cases
      case 1
      with reachable_perform.IH have "trimmed (regno r0)" by blast
      then show ?thesis by (simp add: 1(2) keep)
    next
      case 2
      with n show ?thesis by blast
    qed
  qed
qed


text \<open>The unique columns stay unique: a new key is larger than every key in use, and a
  registration number is inserted only when no record has it.\<close>

lemma fold_max_ge: "a \<le> fold max xs (a::nat)"
  by (induction xs arbitrary: a) (auto intro: order_trans [OF max.cobounded2])

lemma fold_max_mem: "x \<in> set xs \<Longrightarrow> x \<le> fold max xs (a::nat)"
proof (induction xs arbitrary: a)
  case Nil
  then show ?case by simp
next
  case (Cons y ys)
  show ?case
  proof (cases "x = y")
    case True
    have "max y a \<le> fold max ys (max y a)" by (rule fold_max_ge)
    then show ?thesis using True by simp
  next
    case False
    with Cons.prems have "x \<in> set ys" by simp
    then show ?thesis using Cons.IH by simp
  qed
qed

lemma next_id_fresh: "next_id tbl \<notin> reg_id ` set tbl"
proof
  assume "next_id tbl \<in> reg_id ` set tbl"
  then have "next_id tbl \<in> set (map reg_id tbl)" by simp
  then have "next_id tbl \<le> fold max (map reg_id tbl) 0" by (rule fold_max_mem)
  then show False by (simp add: next_id_def)
qed

lemma upload_row_keys:
  assumes "keys_unique (table st)" and "upload_row env clock row (st, n) = Inr (st1, n1)"
  shows "keys_unique (table st1)"
proof (cases "row_regno row = [] \<or> row_regno row \<in> regno ` set (table st)")
  case True
  then show ?thesis using assms by (simp add: upload_row_skip)
next
  case False
  then have ne: "row_regno row \<noteq> []" and ni: "row_regno row \<notin> regno ` set (table st)"
    by simp_all
  show ?thesis
  proof (cases "row_writable env row")
    case True
    show ?thesis
      using assms next_id_fresh [of "table st"] ni
      by (auto simp: upload_row_accept [OF ne ni True] keys_unique_def)
  next
    case False
    with assms(2) show ?thesis by (simp add: upload_row_fail [OF ne ni False])
  qed
qed

lemma upload_rows_keys:
  "keys_unique (table st) \<Longrightarrow> upload_rows env clock rows (st, n) = Inr (st', c) \<Longrightarrow>
   keys_unique (table st')"
proof (induction rows arbitrary: st n)
  case Nil
  then show ?case by simp
next
  case (Cons row rows)
  show ?case
  proof (cases "upload_row env clock row (st, n)")
    case (Inl e)
    with Cons.prems(2) show ?thesis by simp
  next
    case (Inr y)
    obtain st1 n1 where y: "y = (st1, n1)" by (cases y)
    have "keys_unique (table st1)"
      using Cons.prems(1) Inr y by (auto intro: upload_row_keys)
    moreover have "upload_rows env clock rows (st1, n1) = Inr (st', c)"
      using Cons.prems(2) Inr y by simp
    ultimately show ?thesis by (rule Cons.IH)
  qed
qed

lemma approve_keys:
  "keys_unique tbl \<Longrightarrow> keys_unique (map (approve_row now i) tbl)"
proof -
  have "map reg_id (map (approve_row now i) tbl) = map reg_id tbl"
    by simp
  moreover have "map regno (map (approve_row now i) tbl) = map regno tbl"
    by (simp add: approve_row_fields)
  ultimately show "keys_unique tbl \<Longrightarrow> keys_unique (map (approve_row now i) tbl)"
    unfolding keys_unique_def by (simp only:)
qed

lemma reachable_keys_unique: "reachable st \<Longrightarrow> keys_unique (table st)"
proof (induction rule: reachable.induct)
  case reachable_initial
  show ?case by (simp add: initial_state_def keys_unique_def)
next
  case (reachable_perform st op)
  show ?case
  proof (cases op)
    case (Upload sess env clock req)
    from upload_state_cases [of sess env clock req st]
    consider "perform op st = st"
      | rows c where "upload_rows env clock rows (st, 0) = Inr (perform op st, c)"
      | q where "perform op st = st\<lparr>qrcodes := q\<rparr>"
      using Upload by auto
    then show ?thesis
    proof cases
      case 1
      with reachable_perform.IH show ?thesis by simp
    next
      case 2
      with reachable_perform.IH show ?thesis by (rule upload_rows_keys)
    next
      case 3
      with reachable_perform.IH show ?thesis by simp
    qed
  next
    case (Approve sess now i)
    from approve_state_cases [of sess now i st] reachable_perform.IH
    show ?thesis unfolding Approve by (auto simp: approve_keys)
  qed
qed

text \<open>
  C5. In every state that uploads and approvals reach from the empty database, every
  record has status \<open>pending\<close> or \<open>approved\<close> and has an approval time exactly when
  it is approved. Whatever operation comes next, every record stays at its place with its
  key and its registration number, and its status either stays what it was or goes from
  \<open>pending\<close> to \<open>approved\<close>; no record goes back.
\<close>

theorem reachable_status_lifecycle:
  "reachable st \<Longrightarrow>
     (\<forall>r\<in>set (table st). record_ok r) \<and>
     (\<forall>op. length (table st) \<le> length (table (perform op st)) \<and>
        (\<forall>i<length (table st).
           reg_id (table (perform op st) ! i) = reg_id (table st ! i) \<and>
           regno (table (perform op st) ! i) = regno (table st ! i) \<and>
           (status (table (perform op st) ! i) = status (table st ! i) \<or>
            status (table st ! i) = ''pending'' \<and>
            status (table (perform op st) ! i) = ''approved'')))"
proof
  assume r: "reachable st"
  then show ok: "\<forall>r\<in>set (table st). record_ok r" by (rule reachable_ok)
  show "\<forall>op. length (table st) \<le> length (table (perform op st)) \<and>
        (\<forall>i<length (table st).
           reg_id (table (perform op st) ! i) = reg_id (table st ! i) \<and>
           regno (table (perform op st) ! i) = regno (table st ! i) \<and>
           (status (table (perform op st) ! i) = status (table st ! i) \<or>
            status (table st ! i) = ''pending'' \<and>
            status (table (perform op st) ! i) = ''approved''))"
  proof (intro allI conjI impI)
    fix op
    obtain f news where t: "table (perform op st) = map f (table st) @ news"
      and f: "\<forall>r. f r = r \<or> (\<exists>now. f r = r\<lparr>status := ''approved'', approved_at := Some now\<rparr>)"
      using perform_table [of op st] by blast
    show "length (table st) \<le> length (table (perform op st))" by (simp add: t)
    fix i assume i: "i < length (table st)"
    have nth: "table (perform op st) ! i = f (table st ! i)"
      using i by (simp add: t nth_append)
    from i ok have "record_ok (table st ! i)" by simp
    then have two: "status (table st ! i) = ''pending'' \<or> status (table st ! i) = ''approved''"
      by (simp add: record_ok_def)
    show "reg_id (table (perform op st) ! i) = reg_id (table st ! i)"
      unfolding nth using f [rule_format, of "table st ! i"] by auto
    show "regno (table (perform op st) ! i) = regno (table st ! i)"
      unfolding nth using f [rule_format, of "table st ! i"] by auto
    show "status (table (perform op st) ! i) = status (table st ! i) \<or>
            status (table st ! i) = ''pending'' \<and>
            status (table (perform op st) ! i) = ''approved''"
      unfolding nth using f [rule_format, of "table st ! i"] two by auto
  qed
qed

theorem reachable_status_lifecycle_witness:
  "reachable uploaded_state \<and> table uploaded_state = [example_record] \<and>
   record_ok example_record \<and> status example_record = ''pending'' \<and>
   table (perform (Approve admin_session 20 1) uploaded_state) =
     [example_record\<lparr>status := ''approved'', approved_at := Some 20\<rparr>]"
proof -
  have r: "reachable uploaded_state"
    unfolding uploaded_state_def by (intro reachable.intros)
  have t: "table uploaded_state = [example_record]" by code_simp
  have a: "table (perform (Approve admin_session 20 1) uploaded_state) =
     [example_record\<lparr>status := ''approved'', approved_at := Some 20\<rparr>]" by code_simp
  from reachable_status_lifecycle [OF r] t have "record_ok example_record" by simp
  moreover have "status example_record = ''pending''" by (simp add: example_record_def)
  ultimately show ?thesis using r t a by simp
qed

lemma api_get_by_regno_found:
  assumes "fst (api_get_by_regno sess q st) = Json 200 b"
  shows "q \<in> regno ` set (table st)"
proof (cases "first_by_regno q (table st)")
  case None
  with assms show ?thesis
    by (simp add: api_get_by_regno_def login_required_def split: if_splits)
next
  case (Some r)
  then have "r \<in> set (table st)" "regno r = q"
    by (auto simp: first_by_regno_def find_Some_iff)
  then show ?thesis by blast
qed

text \<open>
  C10. In every reachable state the registration number of every record is not empty and
  neither starts nor ends with whitespace; so a lookup by registration number can only
  answer with a record when its argument is such a string.
\<close>

theorem stored_regno_trimmed:
  "reachable st \<Longrightarrow>
     (\<forall>r\<in>set (table st). trimmed (regno r)) \<and>
     (\<forall>sess q b. fst (api_get_by_regno sess q st) = Json 200 b \<longrightarrow> trimmed q)"
proof
  assume "reachable st"
  then show t: "\<forall>r\<in>set (table st). trimmed (regno r)" by (rule reachable_trimmed)
  show "\<forall>sess q b. fst (api_get_by_regno sess q st) = Json 200 b \<longrightarrow> trimmed q"
  proof (intro allI impI)
    fix sess q b assume "fst (api_get_by_regno sess q st) = Json 200 b"
    then have "q \<in> regno ` set (table st)" by (rule api_get_by_regno_found)
    with t show "trimmed q" by blast
  qed
qed

theorem stored_regno_trimmed_witness:
  "reachable uploaded_state \<and> map regno (table uploaded_state) = [''A1''] \<and> trimmed ''A1'' \<and>
   fst (api_get_by_regno admin_session ''A1'' uploaded_state) =
     Json 200 (JRecord 1 [(''Reg No'', PyStr ''A1''), (''Name'', PyStr ''Alice'')] ''pending'') \<and>
   fst (api_get_by_regno admin_session '' A1'' uploaded_state) = Json 404 (JError ''not found'')"
proof -
  have r: "reachable uploaded_state"
    unfolding uploaded_state_def by (intro reachable.intros)
  have t: "map regno (table uploaded_state) = [''A1'']" by code_simp
  have g: "fst (api_get_by_regno admin_session ''A1'' uploaded_state) =
     Json 200 (JRecord 1 [(''Reg No'', PyStr ''A1''), (''Name'', PyStr ''Alice'')] ''pending'')"
    by code_simp
  have n: "fst (api_get_by_regno admin_session '' A1'' uploaded_state) = Json 404 (JError ''not found'')"
    by code_simp
  from stored_regno_trimmed [OF r] g have "trimmed ''A1''" by blast
  with r t g n show ?thesis by simp
qed



end
